theory Spec2Isabelle
  imports Main "HOL-Library.Char_ord" "HOL-Library.List_Lexorder"
begin

section \<open>The PNN data reader of \<^verbatim>\<open>RecommenderSystems/pnn/pnn_train_eval.py\<close>\<close>

text \<open>
  The development embeds \<^verbatim>\<open>PNNDataReader\<close> and \<^verbatim>\<open>make_criteo_dataloader\<close>.
  A one-dimensional numpy array is a list of cells of an arbitrary type \<open>'a\<close> (the
  reader only moves cells around, it never computes with them); a two-dimensional array
  is its shape together with its rows. Python's \<^verbatim>\<open>int\<close> is \<open>int\<close>. Exceptions are
  values of the type \<open>error\<close>.
\<close>

subsection \<open>Python and numpy primitives\<close>

datatype error = KeyError string | IndexError | ValueError | ZeroDivisionError

record 'a ndarray2 =
  shape :: "nat \<times> nat"
  cells :: "'a list list"

text \<open>The bound of a slice: a negative bound counts from the end, and every bound is
  clamped to the length.\<close>

definition slice_bound :: "int \<Rightarrow> nat \<Rightarrow> nat" where
  "slice_bound i n = (if i < 0 then nat (max 0 (i + int n)) else min (nat i) n)"

text \<open>\<^verbatim>\<open>xs[i:j]\<close> and \<^verbatim>\<open>xs[i:]\<close>, on a list and on a one-dimensional array alike.\<close>

definition py_slice :: "'a list \<Rightarrow> int \<Rightarrow> int \<Rightarrow> 'a list" where
  "py_slice xs i j =
     (let lo = slice_bound i (length xs); hi = slice_bound j (length xs)
      in take (hi - lo) (drop lo xs))"

definition py_slice_from :: "'a list \<Rightarrow> int \<Rightarrow> 'a list" where
  "py_slice_from xs i = drop (slice_bound i (length xs)) xs"

text \<open>\<^verbatim>\<open>xs[i]\<close> for an index that is never negative in this program.\<close>

definition py_get :: "'a list \<Rightarrow> nat \<Rightarrow> error + 'a" where
  "py_get xs i = (if i < length xs then Inr (xs ! i) else Inl IndexError)"

text \<open>\<^verbatim>\<open>np.concatenate((a, b))\<close> on one-dimensional arrays.\<close>

definition np_concatenate :: "'a list \<Rightarrow> 'a list \<Rightarrow> 'a list" where
  "np_concatenate a b = a @ b"

text \<open>\<^verbatim>\<open>np.stack(arrays, axis=-1)\<close> on one-dimensional arrays: it raises on an empty
  list and on arrays of different lengths; otherwise cell \<open>(r, c)\<close> of the result is
  cell \<open>r\<close> of the \<open>c\<close>-th array.\<close>

definition np_stack :: "'a list list \<Rightarrow> error + 'a ndarray2" where
  "np_stack arrays =
     (case arrays of
        [] \<Rightarrow> Inl ValueError
      | a # as \<Rightarrow>
          if list_all (\<lambda>b. length b = length a) as
          then Inr \<lparr>shape = (length a, length arrays),
                    cells = map (\<lambda>r. map (\<lambda>c. c ! r) arrays) [0..<length a]\<rparr>
          else Inl ValueError)"

text \<open>\<^verbatim>\<open>str(n)\<close> for a natural number, as the f-strings of the field names use it.\<close>

function str_nat :: "nat \<Rightarrow> string" where
  "str_nat n =
     (if n < 10 then [''0123456789'' ! n]
      else str_nat (n div 10) @ [''0123456789'' ! (n mod 10)])"
  by pat_completeness auto
termination
  by (relation "measure (\<lambda>n. n)") auto

subsection \<open>The reader object\<close>

text \<open>The attribute \<^verbatim>\<open>self.fields\<close> is the record field \<open>fields_attr\<close>.\<close>

definition num_dense_fields :: nat where
  "num_dense_fields = 13"

definition num_sparse_fields :: nat where
  "num_sparse_fields = 26"

record PNNDataReader =
  parquet_file_url_list :: "string list"
  batch_size :: int
  num_epochs :: "int option"
  shuffle_row_groups :: bool
  shard_seed :: int
  shard_count :: int
  cur_shard :: int
  fields_attr :: "string list"
  num_fields :: nat

definition PNNDataReader_init ::
  "string list \<Rightarrow> int \<Rightarrow> int option \<Rightarrow> bool \<Rightarrow> int \<Rightarrow> int \<Rightarrow> int \<Rightarrow> PNNDataReader" where
  "PNNDataReader_init urls bs epochs shuffle seed count cur =
     (let fields0 = [''Label''];
          fields1 = fields0 @ map (\<lambda>i. ''I'' @ str_nat (i + 1)) [0..<num_dense_fields];
          fields2 = fields1 @ map (\<lambda>i. ''C'' @ str_nat (i + 1)) [0..<num_sparse_fields]
      in \<lparr>parquet_file_url_list = urls, batch_size = bs, num_epochs = epochs,
          shuffle_row_groups = shuffle, shard_seed = seed, shard_count = count,
          cur_shard = cur, fields_attr = fields2, num_fields = length fields2\<rparr>)"

subsection \<open>\<^verbatim>\<open>make_criteo_dataloader\<close>\<close>

text \<open>The file system and the distributed environment are parameters: \<open>globbed\<close> is
  the answer of \<^verbatim>\<open>glob.glob\<close> to the pattern made from \<^verbatim>\<open>data_path\<close>, which has no
  other use; \<open>world_size\<close> and \<open>rank\<close> are what \<^verbatim>\<open>flow.env\<close> reports.
  \<^verbatim>\<open>//\<close> raises on a zero divisor and floors otherwise, as \<open>div\<close> on \<open>int\<close> does.
  \<^verbatim>\<open>files.sort()\<close> orders the strings by their characters, as \<open>sort\<close> does with
  the lexicographic order on lists of characters.\<close>

definition make_criteo_dataloader ::
  "string list \<Rightarrow> int \<Rightarrow> int \<Rightarrow> int \<Rightarrow> bool \<Rightarrow> error + PNNDataReader" where
  "make_criteo_dataloader globbed world_size rank bs shuffle =
     (let files = sort (map (\<lambda>name. ''file://'' @ name) globbed)
      in if world_size = 0 then Inl ZeroDivisionError
         else let batch_size_per_proc = bs div world_size
              in Inr (PNNDataReader_init files batch_size_per_proc None shuffle 1234
                        world_size rank))"

subsection \<open>\<^verbatim>\<open>get_batches\<close>\<close>

text \<open>A row group, after \<^verbatim>\<open>rg._asdict()\<close>, is a dictionary from field names to columns.
  A batch is the pair that the generator yields.\<close>

type_synonym 'a row_group = "string \<rightharpoonup> 'a list"

type_synonym 'a batch = "'a list \<times> 'a ndarray2"

text \<open>The generator is observed at two kinds of points, each with the value of its local
  variable \<^verbatim>\<open>tail\<close> there: \<open>Pull\<close> when the \<^verbatim>\<open>for\<close> loop asks the reader for the
  next row group (also the last time, when the reader is exhausted), and \<open>Yield\<close> when
  a batch is handed to the caller.\<close>

datatype 'a event = Pull "'a list list option" | Yield "'a list list option" "'a batch"

text \<open>\<^verbatim>\<open>[rgdict[field] for field in self.fields]\<close>\<close>

fun project :: "'a row_group \<Rightarrow> string list \<Rightarrow> error + 'a list list" where
  "project rgdict [] = Inr []"
| "project rgdict (field # rest) =
     (case rgdict field of
        None \<Rightarrow> Inl (KeyError field)
      | Some col \<Rightarrow>
          (case project rgdict rest of Inl e \<Rightarrow> Inl e | Inr cols \<Rightarrow> Inr (col # cols)))"

text \<open>The list comprehension of lines 146 to 151, over a list of indices:
  \<^verbatim>\<open>np.concatenate((tail[i], rglist[i][0 : (batch_size - len(tail[i]))]))\<close>\<close>

fun complete_tail :: "int \<Rightarrow> 'a list list \<Rightarrow> 'a list list \<Rightarrow> nat list \<Rightarrow> error + 'a list list" where
  "complete_tail bs tail rglist [] = Inr []"
| "complete_tail bs tail rglist (i # is) =
     (case py_get tail i of
        Inl e \<Rightarrow> Inl e
      | Inr t \<Rightarrow>
          (case py_get rglist i of
             Inl e \<Rightarrow> Inl e
           | Inr c \<Rightarrow>
               (case complete_tail bs tail rglist is of
                  Inl e \<Rightarrow> Inl e
                | Inr cols \<Rightarrow>
                    Inr (np_concatenate t (py_slice c 0 (bs - int (length t))) # cols))))"

text \<open>The list comprehension of line 168: \<^verbatim>\<open>[rglist[i][pos:] for i in range(self.num_fields)]\<close>\<close>

fun new_tail :: "'a list list \<Rightarrow> int \<Rightarrow> nat list \<Rightarrow> error + 'a list list" where
  "new_tail rglist pos [] = Inr []"
| "new_tail rglist pos (i # is) =
     (case py_get rglist i of
        Inl e \<Rightarrow> Inl e
      | Inr c \<Rightarrow>
          (case new_tail rglist pos is of
             Inl e \<Rightarrow> Inl e
           | Inr cols \<Rightarrow> Inr (py_slice_from c pos # cols)))"

text \<open>The \<^verbatim>\<open>while\<close> loop of lines 161 to 165. It returns the events of its yields and
  either the error that ended it or the cursor \<open>pos\<close> at its exit. The features are
  \<^verbatim>\<open>rglist[1:][pos: pos + batch_size]\<close>: a slice of the list of feature columns.\<close>

function slicing_loop ::
  "int \<Rightarrow> 'a list list option \<Rightarrow> 'a list list \<Rightarrow> int \<Rightarrow> 'a event list \<times> (error + int)" where
  "slicing_loop bs tail rglist pos =
     (case py_get rglist 0 of
        Inl e \<Rightarrow> ([], Inl e)
      | Inr c0 \<Rightarrow>
          if pos + bs \<le> int (length c0) then
            (let label = py_slice c0 pos (pos + bs);
                 features = py_slice (py_slice_from rglist 1) pos (pos + bs)
             in case np_stack features of
                  Inl e \<Rightarrow> ([], Inl e)
                | Inr stacked \<Rightarrow>
                    (case slicing_loop bs tail rglist (pos + bs) of
                       (evs, r) \<Rightarrow> (Yield tail (label, stacked) # evs, r)))
          else ([], Inr pos))"
  by pat_completeness auto
termination
proof (relation "measure (\<lambda>(bs, tail, rglist, pos).
          if 0 < bs then nat (int (length (hd rglist)) - pos) else if 0 \<le> pos then 1 else 0)")
  show "wf (measure (\<lambda>(bs::int, tail::'a list list option, rglist::'a list list, pos::int).
          if 0 < bs then nat (int (length (hd rglist)) - pos) else if 0 \<le> pos then 1 else 0))"
    by simp
next
  fix bs :: int and tail :: "'a list list option" and rglist :: "'a list list" and pos :: int
    and c0 label features stacked
  assume g: "py_get rglist 0 = Inr c0" and le: "pos + bs \<le> int (length c0)"
    and f: "features = py_slice (py_slice_from rglist 1) pos (pos + bs)"
    and s: "np_stack features = Inr stacked"
  from g have c0: "c0 = hd rglist"
    by (auto simp: py_get_def hd_conv_nth split: if_splits)
  from s have "features \<noteq> []"
    by (auto simp: np_stack_def)
  with f have "slice_bound pos (length (py_slice_from rglist 1))
      < slice_bound (pos + bs) (length (py_slice_from rglist 1))"
    by (auto simp: py_slice_def Let_def)
  then have neg: "bs \<le> 0 \<Longrightarrow> 0 \<le> pos \<and> pos + bs < 0"
    by (auto simp: slice_bound_def split: if_splits)
  show "((bs, tail, rglist, pos + bs), (bs, tail, rglist, pos)) \<in> measure (\<lambda>(bs, tail, rglist, pos).
          if 0 < bs then nat (int (length (hd rglist)) - pos) else if 0 \<le> pos then 1 else 0)"
  proof (cases "0 < bs")
    case True
    with le c0 show ?thesis by simp
  next
    case False
    with neg show ?thesis by simp
  qed
qed

text \<open>Lines 161 to 168: the \<^verbatim>\<open>while\<close> loop, then the rows that are left become the
  new tail; when none is left, \<^verbatim>\<open>tail\<close> keeps its value.\<close>

definition slice_and_store ::
  "PNNDataReader \<Rightarrow> int \<Rightarrow> 'a list list option \<Rightarrow> 'a list list \<Rightarrow> int
     \<Rightarrow> 'a event list \<times> (error + 'a list list option)" where
  "slice_and_store self bs tail rglist pos =
     (case slicing_loop bs tail rglist pos of
        (evs, Inl e) \<Rightarrow> (evs, Inl e)
      | (evs, Inr pos') \<Rightarrow>
          (case py_get rglist 0 of
             Inl e \<Rightarrow> (evs, Inl e)
           | Inr c0 \<Rightarrow>
               if pos' \<noteq> int (length c0) then
                 (case new_tail rglist pos' [0..<num_fields self] of
                    Inl e \<Rightarrow> (evs, Inl e)
                  | Inr t \<Rightarrow> (evs, Inr (Some t)))
               else (evs, Inr tail)))"

text \<open>The body of the \<^verbatim>\<open>for\<close> loop, lines 141 to 168, for one row group. It returns
  the events of its yields and either the error raised or the value of \<^verbatim>\<open>tail\<close> when
  the loop goes back for the next row group.\<close>

definition process_row_group ::
  "PNNDataReader \<Rightarrow> int \<Rightarrow> 'a list list option \<Rightarrow> 'a row_group
     \<Rightarrow> 'a event list \<times> (error + 'a list list option)" where
  "process_row_group self bs tail rgdict =
     (case project rgdict (fields_attr self) of
        Inl e \<Rightarrow> ([], Inl e)
      | Inr rglist \<Rightarrow>
          (case tail of
             None \<Rightarrow> slice_and_store self bs None rglist 0
           | Some t \<Rightarrow>
               (case py_get t 0 of
                  Inl e \<Rightarrow> ([], Inl e)
                | Inr t0 \<Rightarrow>
                    (let pos = bs - int (length t0)
                     in case complete_tail bs t rglist [0..<num_fields self] of
                          Inl e \<Rightarrow> ([], Inl e)
                        | Inr t' \<Rightarrow>
                            (case py_get t' 0 of
                               Inl e \<Rightarrow> ([], Inl e)
                             | Inr t0' \<Rightarrow>
                                 if int (length t0') = bs then
                                   (let label = t0'; features = py_slice_from t' 1
                                    in case np_stack features of
                                         Inl e \<Rightarrow> ([], Inl e)
                                       | Inr stacked \<Rightarrow>
                                           (case slice_and_store self bs None rglist pos of
                                              (evs, r) \<Rightarrow>
                                                (Yield None (label, stacked) # evs, r)))
                                 else ([], Inr (Some t')))))))"

text \<open>The \<^verbatim>\<open>for\<close> loop over the reader, a finite list of row groups. When the reader
  is exhausted the generator returns and the tail that is left is dropped.\<close>

fun for_loop ::
  "PNNDataReader \<Rightarrow> int \<Rightarrow> 'a list list option \<Rightarrow> 'a row_group list
     \<Rightarrow> 'a event list \<times> (error + 'a list list option)" where
  "for_loop self bs tail [] = ([Pull tail], Inr tail)"
| "for_loop self bs tail (rg # reader) =
     (case process_row_group self bs tail rg of
        (evs, Inl e) \<Rightarrow> (Pull tail # evs, Inl e)
      | (evs, Inr tail') \<Rightarrow>
          (case for_loop self bs tail' reader of
             (evs', r) \<Rightarrow> (Pull tail # evs @ evs', r)))"

text \<open>Lines 135 and 136: the batch size is the argument, or \<^verbatim>\<open>self.batch_size\<close> when
  the argument is \<^verbatim>\<open>None\<close>.\<close>

definition chosen_batch_size :: "PNNDataReader \<Rightarrow> int option \<Rightarrow> int" where
  "chosen_batch_size self batch_size_arg =
     (case batch_size_arg of None \<Rightarrow> batch_size self | Some b \<Rightarrow> b)"

definition get_batches ::
  "PNNDataReader \<Rightarrow> 'a row_group list \<Rightarrow> int option
     \<Rightarrow> 'a event list \<times> (error + 'a list list option)" where
  "get_batches self reader batch_size_arg =
     (let bs = chosen_batch_size self batch_size_arg
      in for_loop self bs None reader)"

text \<open>What the caller of the generator sees: the batches, in the order of their yields.\<close>

fun batches :: "'a event list \<Rightarrow> 'a batch list" where
  "batches [] = []"
| "batches (Pull tail # evs) = batches evs"
| "batches (Yield tail b # evs) = b # batches evs"

fun tails :: "'a event list \<Rightarrow> 'a list list option list" where
  "tails [] = []"
| "tails (Pull tail # evs) = tail # tails evs"
| "tails (Yield tail b # evs) = tail # tails evs"

subsection \<open>Well-formed inputs and the invariant of the tail\<close>

text \<open>A row group is well formed with \<open>n\<close> rows when it has a column of length \<open>n\<close> for
  every field of the schema.\<close>

definition well_formed :: "string list \<Rightarrow> 'a row_group \<Rightarrow> nat \<Rightarrow> bool" where
  "well_formed fs rgdict n = list_all (\<lambda>f. map_option length (rgdict f) = Some n) fs"

definition rows :: "PNNDataReader \<Rightarrow> 'a row_group \<Rightarrow> nat" where
  "rows self rgdict = (case rgdict (hd (fields_attr self)) of None \<Rightarrow> 0 | Some c \<Rightarrow> length c)"

definition well_formed_reader :: "PNNDataReader \<Rightarrow> 'a row_group list \<Rightarrow> bool" where
  "well_formed_reader self reader =
     list_all (\<lambda>rgdict. well_formed (fields_attr self) rgdict (rows self rgdict)) reader"

text \<open>The invariant of the tail buffer: there is none, or its columns all have the same
  length, which is below the batch size.\<close>

definition tail_invariant :: "int \<Rightarrow> 'a list list option \<Rightarrow> bool" where
  "tail_invariant bs tail =
     (case tail of
        None \<Rightarrow> True
      | Some cols \<Rightarrow>
          cols \<noteq> [] \<and> list_all (\<lambda>c. length c = length (hd cols)) cols
          \<and> int (length (hd cols)) < bs)"

text \<open>The form of the invariant that the loop preserves: the tail also has one column
  for each field.\<close>

definition tail_ok :: "int \<Rightarrow> nat \<Rightarrow> 'a list list option \<Rightarrow> bool" where
  "tail_ok bs nf tail =
     (case tail of
        None \<Rightarrow> True
      | Some cols \<Rightarrow> length cols = nf \<and> (\<exists>m. (\<forall>c \<in> set cols. length c = m) \<and> int m < bs))"

text \<open>Row groups for concrete runs: the cell of column \<open>f\<close> at row \<open>r\<close> is the pair
  \<open>(f, r)\<close>, so that every cell of an output tells the input cell it comes from. The
  rows are numbered from \<open>start\<close>.\<close>

definition sample_row_group :: "nat \<Rightarrow> nat \<Rightarrow> (string \<times> nat) row_group" where
  "sample_row_group start n = (\<lambda>f. Some (map (\<lambda>r. (f, r)) [start..<start + n]))"

text \<open>The list \<^verbatim>\<open>rglist\<close> that line 142 builds from such a row group.\<close>

definition sample_columns :: "PNNDataReader \<Rightarrow> nat \<Rightarrow> nat \<Rightarrow> (string \<times> nat) list list" where
  "sample_columns self start n = map (\<lambda>f. map (\<lambda>r. (f, r)) [start..<start + n]) (fields_attr self)"

text \<open>The batch of one iteration of the slicing loop in the words of the specification
  (section 4.1, step 4, and the Training Batch of section 3): exactly \<^verbatim>\<open>batch_size\<close>
  rows from the cursor on are sliced out of every column; the label is column 0 and the
  features are the remaining columns, stacked along a new last axis. It is stated for
  comparison with what \<open>slicing_loop\<close> yields.\<close>

definition spec_training_batch :: "int \<Rightarrow> 'a list list \<Rightarrow> int \<Rightarrow> error + 'a batch" where
  "spec_training_batch bs rglist pos =
     (let sliced = map (\<lambda>c. py_slice c pos (pos + bs)) rglist
      in case py_get sliced 0 of
           Inl e \<Rightarrow> Inl e
         | Inr label \<Rightarrow>
             (case np_stack (py_slice_from sliced 1) of
                Inl e \<Rightarrow> Inl e
              | Inr stacked \<Rightarrow> Inr (label, stacked)))"

subsection \<open>The generator as a machine\<close>

text \<open>A second embedding of \<^verbatim>\<open>get_batches\<close>, as a transition relation, for the claim
  about two runs. A state is the reader object \<^verbatim>\<open>self\<close> together with the frame of the
  generator at one of its program points:
  \<^item> \<open>Entry reader arg\<close>: the call, before line 135, with its two arguments;
  \<^item> \<open>ForHead bs tail reader\<close>: at the \<^verbatim>\<open>for\<close> of line 140, with the locals
    \<^verbatim>\<open>batch_size\<close> and \<^verbatim>\<open>tail\<close> and the row groups the reader has yet to deliver;
  \<^item> \<open>WhileHead bs tail reader rglist pos\<close>: at the test of the \<^verbatim>\<open>while\<close> of line
    161, with the locals \<^verbatim>\<open>rglist\<close> and \<^verbatim>\<open>pos\<close> as well;
  \<^item> \<open>Returned\<close> and \<open>Raised e\<close>: the generator has ended.
  A frame is made anew by each call; the object is what could carry something from one
  run to the next.\<close>

datatype 'a config =
    Entry "'a row_group list" "int option"
  | ForHead int "'a list list option" "'a row_group list"
  | WhileHead int "'a list list option" "'a row_group list" "'a list list" int
  | Returned
  | Raised error

text \<open>One transition runs from a program point to the next one, and is labelled with
  the batch it yields, if any. The rules follow the source: \<open>entry\<close> is lines 135 to
  138; \<open>exhausted\<close> is the end of the \<^verbatim>\<open>for\<close>; \<open>project_raises\<close> and \<open>no_tail\<close> are
  lines 141 to 144 without a tail; the rules from \<open>tail_index_raises\<close> to \<open>tail_short\<close>
  are lines 145 to 159, one for each way through them; the \<open>while\<close> rules are lines 161
  to 165; \<open>store_raises\<close>, \<open>store_tail\<close> and \<open>keep_tail\<close> are lines 167 and 168. No rule
  changes \<^verbatim>\<open>self\<close>, as no statement of \<^verbatim>\<open>get_batches\<close> assigns to an attribute.\<close>

inductive step ::
  "PNNDataReader \<times> 'a config \<Rightarrow> 'a batch option \<Rightarrow> PNNDataReader \<times> 'a config \<Rightarrow> bool" where
  entry:
    "step (self, Entry reader arg) None (self, ForHead (chosen_batch_size self arg) None reader)"
| exhausted:
    "step (self, ForHead bs tail []) None (self, Returned)"
| project_raises:
    "project rg (fields_attr self) = Inl e \<Longrightarrow>
     step (self, ForHead bs tail (rg # reader)) None (self, Raised e)"
| no_tail:
    "project rg (fields_attr self) = Inr rglist \<Longrightarrow>
     step (self, ForHead bs None (rg # reader)) None (self, WhileHead bs None reader rglist 0)"
| tail_index_raises:
    "project rg (fields_attr self) = Inr rglist \<Longrightarrow> py_get t 0 = Inl e \<Longrightarrow>
     step (self, ForHead bs (Some t) (rg # reader)) None (self, Raised e)"
| complete_raises:
    "project rg (fields_attr self) = Inr rglist \<Longrightarrow> py_get t 0 = Inr t0 \<Longrightarrow>
     complete_tail bs t rglist [0..<num_fields self] = Inl e \<Longrightarrow>
     step (self, ForHead bs (Some t) (rg # reader)) None (self, Raised e)"
| completed_index_raises:
    "project rg (fields_attr self) = Inr rglist \<Longrightarrow> py_get t 0 = Inr t0 \<Longrightarrow>
     complete_tail bs t rglist [0..<num_fields self] = Inr t' \<Longrightarrow> py_get t' 0 = Inl e \<Longrightarrow>
     step (self, ForHead bs (Some t) (rg # reader)) None (self, Raised e)"
| tail_stack_raises:
    "project rg (fields_attr self) = Inr rglist \<Longrightarrow> py_get t 0 = Inr t0 \<Longrightarrow>
     complete_tail bs t rglist [0..<num_fields self] = Inr t' \<Longrightarrow> py_get t' 0 = Inr t0' \<Longrightarrow>
     int (length t0') = bs \<Longrightarrow> np_stack (py_slice_from t' 1) = Inl e \<Longrightarrow>
     step (self, ForHead bs (Some t) (rg # reader)) None (self, Raised e)"
| tail_completed:
    "project rg (fields_attr self) = Inr rglist \<Longrightarrow> py_get t 0 = Inr t0 \<Longrightarrow>
     complete_tail bs t rglist [0..<num_fields self] = Inr t' \<Longrightarrow> py_get t' 0 = Inr t0' \<Longrightarrow>
     int (length t0') = bs \<Longrightarrow> np_stack (py_slice_from t' 1) = Inr stacked \<Longrightarrow>
     step (self, ForHead bs (Some t) (rg # reader)) (Some (t0', stacked))
          (self, WhileHead bs None reader rglist (bs - int (length t0)))"
| tail_short:
    "project rg (fields_attr self) = Inr rglist \<Longrightarrow> py_get t 0 = Inr t0 \<Longrightarrow>
     complete_tail bs t rglist [0..<num_fields self] = Inr t' \<Longrightarrow> py_get t' 0 = Inr t0' \<Longrightarrow>
     int (length t0') \<noteq> bs \<Longrightarrow>
     step (self, ForHead bs (Some t) (rg # reader)) None (self, ForHead bs (Some t') reader)"
| while_index_raises:
    "py_get rglist 0 = Inl e \<Longrightarrow>
     step (self, WhileHead bs tail reader rglist pos) None (self, Raised e)"
| while_stack_raises:
    "py_get rglist 0 = Inr c0 \<Longrightarrow> pos + bs \<le> int (length c0) \<Longrightarrow>
     np_stack (py_slice (py_slice_from rglist 1) pos (pos + bs)) = Inl e \<Longrightarrow>
     step (self, WhileHead bs tail reader rglist pos) None (self, Raised e)"
| while_yield:
    "py_get rglist 0 = Inr c0 \<Longrightarrow> pos + bs \<le> int (length c0) \<Longrightarrow>
     np_stack (py_slice (py_slice_from rglist 1) pos (pos + bs)) = Inr stacked \<Longrightarrow>
     step (self, WhileHead bs tail reader rglist pos) (Some (py_slice c0 pos (pos + bs), stacked))
          (self, WhileHead bs tail reader rglist (pos + bs))"
| store_raises:
    "py_get rglist 0 = Inr c0 \<Longrightarrow> \<not> pos + bs \<le> int (length c0) \<Longrightarrow>
     pos \<noteq> int (length c0) \<Longrightarrow> new_tail rglist pos [0..<num_fields self] = Inl e \<Longrightarrow>
     step (self, WhileHead bs tail reader rglist pos) None (self, Raised e)"
| store_tail:
    "py_get rglist 0 = Inr c0 \<Longrightarrow> \<not> pos + bs \<le> int (length c0) \<Longrightarrow>
     pos \<noteq> int (length c0) \<Longrightarrow> new_tail rglist pos [0..<num_fields self] = Inr t \<Longrightarrow>
     step (self, WhileHead bs tail reader rglist pos) None (self, ForHead bs (Some t) reader)"
| keep_tail:
    "py_get rglist 0 = Inr c0 \<Longrightarrow> \<not> pos + bs \<le> int (length c0) \<Longrightarrow>
     pos = int (length c0) \<Longrightarrow>
     step (self, WhileHead bs tail reader rglist pos) None (self, ForHead bs tail reader)"

code_pred step .

text \<open>A run, with the batches that it yields in order.\<close>

inductive runs ::
  "PNNDataReader \<times> 'a config \<Rightarrow> 'a batch list \<Rightarrow> PNNDataReader \<times> 'a config \<Rightarrow> bool" where
  stop: "runs s [] s"
| silent: "step s None s' \<Longrightarrow> runs s' bs s'' \<Longrightarrow> runs s bs s''"
| yield: "step s (Some b) s' \<Longrightarrow> runs s' bs s'' \<Longrightarrow> runs s (b # bs) s''"

code_pred runs .

fun terminal :: "'a config \<Rightarrow> bool" where
  "terminal Returned = True"
| "terminal (Raised e) = True"
| "terminal c = False"

text \<open>What the invariant says of one event: at a pull the tail is as above, at a yield
  there is no tail and the label has the size of a batch.\<close>

fun event_ok :: "int \<Rightarrow> nat \<Rightarrow> 'a event \<Rightarrow> bool" where
  "event_ok bs nf (Pull tail) = tail_ok bs nf tail"
| "event_ok bs nf (Yield tail (l, f)) = (tail = None \<and> int (length l) = bs)"

declare slicing_loop.simps [simp del]

declare str_nat.simps [simp del]

section \<open>Properties\<close>

subsection \<open>Slices and the list comprehensions\<close>

lemma slice_bound_nonneg: "0 \<le> i \<Longrightarrow> slice_bound i n = min (nat i) n"
  by (simp add: slice_bound_def)

lemma py_slice_nonneg:
  "0 \<le> i \<Longrightarrow> i \<le> j \<Longrightarrow> py_slice xs i j = take (nat (j - i)) (drop (nat i) xs)"
  by (cases "nat i \<le> length xs")
     (auto simp: py_slice_def slice_bound_nonneg Let_def min_def nat_diff_distrib)

lemma length_py_slice:
  "0 \<le> i \<Longrightarrow> i \<le> j \<Longrightarrow> j \<le> int (length xs) \<Longrightarrow> length (py_slice xs i j) = nat (j - i)"
  by (simp add: py_slice_nonneg)

lemma py_slice_from_nonneg: "0 \<le> i \<Longrightarrow> py_slice_from xs i = drop (nat i) xs"
  by (simp add: py_slice_from_def slice_bound_nonneg min_def)

lemma project_well_formed:
  "well_formed fs rgdict n \<Longrightarrow> project rgdict fs = Inr (map (\<lambda>f. the (rgdict f)) fs)"
  by (induction fs) (auto simp: well_formed_def)

lemma well_formed_length:
  "well_formed fs rgdict n \<Longrightarrow> f \<in> set fs \<Longrightarrow> length (the (rgdict f)) = n"
  by (auto simp: well_formed_def list_all_iff)

lemma complete_tail_eq:
  "\<forall>i \<in> set is. i < length t \<and> i < length rglist \<Longrightarrow>
   complete_tail bs t rglist is =
     Inr (map (\<lambda>i. t ! i @ py_slice (rglist ! i) 0 (bs - int (length (t ! i)))) is)"
  by (induction "is") (auto simp: py_get_def np_concatenate_def)

lemma new_tail_eq:
  "\<forall>i \<in> set is. i < length rglist \<Longrightarrow>
   new_tail rglist pos is = Inr (map (\<lambda>i. py_slice_from (rglist ! i) pos) is)"
  by (induction "is") (auto simp: py_get_def)

subsection \<open>The tail invariant along one row group\<close>

lemma slicing_loop_inv:
  "0 < bs \<Longrightarrow> rglist \<noteq> [] \<Longrightarrow> 0 \<le> pos \<Longrightarrow> pos \<le> int (length (hd rglist)) \<Longrightarrow>
     slicing_loop bs tail rglist pos = (evs, r) \<Longrightarrow>
     (\<forall>ev \<in> set evs. \<exists>l f. ev = Yield tail (l, f) \<and> int (length l) = bs) \<and>
     (\<forall>p. r = Inr p \<longrightarrow> 0 \<le> p \<and> p \<le> int (length (hd rglist)) \<and> int (length (hd rglist)) < p + bs)"
proof (induction bs tail rglist pos arbitrary: evs r rule: slicing_loop.induct)
  case (1 bs tail rglist pos)
  from \<open>rglist \<noteq> []\<close> have g: "py_get rglist 0 = Inr (hd rglist)"
    by (simp add: py_get_def hd_conv_nth)
  show ?case
  proof (cases "pos + bs \<le> int (length (hd rglist))")
    case False
    with "1.prems" g show ?thesis
      by (auto simp: slicing_loop.simps [of bs tail rglist pos])
  next
    case True
    let ?label = "py_slice (hd rglist) pos (pos + bs)"
    let ?features = "py_slice (py_slice_from rglist 1) pos (pos + bs)"
    from True "1.prems" have len: "int (length ?label) = bs"
      by (simp add: length_py_slice)
    show ?thesis
    proof (cases "np_stack ?features")
      case (Inl e)
      with True "1.prems" g show ?thesis
        by (auto simp: slicing_loop.simps [of bs tail rglist pos])
    next
      case (Inr stacked)
      obtain evs' r' where rec: "slicing_loop bs tail rglist (pos + bs) = (evs', r')"
        by (cases "slicing_loop bs tail rglist (pos + bs)")
      from "1.prems" True g Inr rec
      have res: "evs = Yield tail (?label, stacked) # evs'" "r = r'"
        by (auto simp: slicing_loop.simps [of bs tail rglist pos])
      from "1.prems" True have "0 \<le> pos + bs" by simp
      from "1.IH" [OF g True refl refl Inr "1.prems"(1) "1.prems"(2) this True rec]
      have "(\<forall>ev \<in> set evs'. \<exists>l f. ev = Yield tail (l, f) \<and> int (length l) = bs) \<and>
        (\<forall>p. r' = Inr p \<longrightarrow> 0 \<le> p \<and> p \<le> int (length (hd rglist)) \<and> int (length (hd rglist)) < p + bs)" .
      with res len show ?thesis by simp
    qed
  qed
qed

lemma tail_okI:
  "length cols = nf \<Longrightarrow> \<forall>c \<in> set cols. length c = m \<Longrightarrow> int m < bs \<Longrightarrow> tail_ok bs nf (Some cols)"
  by (auto simp: tail_ok_def)

lemma map_upt_nth: "map (\<lambda>i. f (xs ! i)) [0..<length xs] = map f xs"
  by (rule nth_equalityI) simp_all

lemma slice_and_store_inv:
  assumes bs: "0 < bs" and ne: "rglist \<noteq> []" and nf: "length rglist = num_fields self"
    and rect: "\<forall>c \<in> set rglist. length c = n"
    and pos: "0 \<le> pos" "pos \<le> int n"
    and run: "slice_and_store self bs None rglist pos = (evs, r)"
  shows "(\<forall>ev \<in> set evs. \<exists>l f. ev = Yield None (l, f) \<and> int (length l) = bs) \<and>
         (\<forall>t. r = Inr t \<longrightarrow> tail_ok bs (num_fields self) t)"
proof -
  from ne rect have hd: "length (hd rglist) = n" by simp
  from ne have g: "py_get rglist 0 = Inr (hd rglist)"
    by (simp add: py_get_def hd_conv_nth)
  obtain evs' r' where loop: "slicing_loop bs None rglist pos = (evs', r')"
    by (cases "slicing_loop bs None rglist pos")
  from slicing_loop_inv [OF bs ne pos(1) _ loop] pos(2) hd
  have ys: "\<forall>ev \<in> set evs'. \<exists>l f. ev = Yield None (l, f) \<and> int (length l) = bs"
    and ex: "\<forall>p. r' = Inr p \<longrightarrow> 0 \<le> p \<and> p \<le> int n \<and> int n < p + bs"
    by simp_all
  show ?thesis
  proof (cases r')
    case (Inl e)
    with run loop ys show ?thesis by (auto simp: slice_and_store_def)
  next
    case (Inr p)
    with ex have p: "0 \<le> p" "p \<le> int n" "int n < p + bs" by simp_all
    have nt: "new_tail rglist p [0..<num_fields self] = Inr (map (\<lambda>c. drop (nat p) c) rglist)"
      using p(1) nf [symmetric] by (simp add: new_tail_eq py_slice_from_nonneg map_upt_nth)
    have ok: "tail_ok bs (num_fields self) (Some (map (\<lambda>c. drop (nat p) c) rglist))"
      using nf rect p by (intro tail_okI [where m = "n - nat p"]) auto
    from run loop Inr g hd nt ok ys show ?thesis
      by (auto simp: slice_and_store_def tail_ok_def split: if_splits)
  qed
qed


lemma process_row_group_inv:
  assumes bs: "0 < bs" and ne: "fields_attr self \<noteq> []"
    and nf: "num_fields self = length (fields_attr self)"
    and wf: "well_formed (fields_attr self) rgdict n"
    and ok: "tail_ok bs (num_fields self) tail"
    and run: "process_row_group self bs tail rgdict = (evs, r)"
  shows "(\<forall>ev \<in> set evs. \<exists>l f. ev = Yield None (l, f) \<and> int (length l) = bs) \<and>
         (\<forall>t. r = Inr t \<longrightarrow> tail_ok bs (num_fields self) t)"
proof -
  define rglist where "rglist = map (\<lambda>f. the (rgdict f)) (fields_attr self)"
  from wf have proj: "project rgdict (fields_attr self) = Inr rglist"
    by (simp add: project_well_formed rglist_def)
  from ne have rne: "rglist \<noteq> []" by (simp add: rglist_def)
  from nf have rlen: "length rglist = num_fields self" by (simp add: rglist_def)
  from wf have rect: "\<forall>c \<in> set rglist. length c = n"
    by (auto simp: rglist_def well_formed_length)
  show ?thesis
  proof (cases tail)
    case None
    with run proj have "slice_and_store self bs None rglist 0 = (evs, r)"
      by (simp add: process_row_group_def)
    from slice_and_store_inv [OF bs rne rlen rect _ _ this] show ?thesis by simp
  next
    case (Some t)
    with ok obtain m where tlen: "length t = num_fields self"
      and trect: "\<forall>c \<in> set t. length c = m" and mbs: "int m < bs"
      by (auto simp: tail_ok_def)
    from tlen rlen rne have tne: "t \<noteq> []" by auto
    from tne have g0: "py_get t 0 = Inr (hd t)"
      by (simp add: py_get_def hd_conv_nth)
    from tne trect have hdt: "length (hd t) = m" by simp
    define k where "k = min (nat (bs - int m)) n"
    define t' where "t' = map (\<lambda>i. t ! i @ take k (rglist ! i)) [0..<num_fields self]"
    have tk: "take (nat (bs - int m)) (rglist ! i) = take k (rglist ! i)"
      if "i < num_fields self" for i
    proof -
      from that rect rlen have "length (rglist ! i) = n" by simp
      then show ?thesis by (simp add: k_def min_def)
    qed
    have ct: "complete_tail bs t rglist [0..<num_fields self] = Inr t'"
      using tlen rlen trect mbs tk
      by (simp add: complete_tail_eq t'_def py_slice_nonneg)
    from tlen tne have nfpos: "0 < num_fields self" by (cases t) auto
    then have t'ne: "t' \<noteq> []" by (simp add: t'_def)
    then have g0': "py_get t' 0 = Inr (hd t')"
      by (simp add: py_get_def hd_conv_nth)
    have t'rect: "\<forall>c \<in> set t'. length c = m + k"
      using tlen rlen trect rect by (auto simp: t'_def k_def)
    with t'ne have hdt': "length (hd t') = m + k" by simp
    have t'len: "length t' = num_fields self" by (simp add: t'_def)
    show ?thesis
    proof (cases "int (m + k) = bs")
      case False
      with run proj Some g0 ct g0' hdt'
      have res: "evs = []" "r = Inr (Some t')"
        by (auto simp: process_row_group_def Let_def)
      from False mbs have "int (m + k) < bs" by (auto simp: k_def)
      with t'len t'rect have "tail_ok bs (num_fields self) (Some t')"
        by (auto simp: tail_ok_def)
      with res show ?thesis by simp
    next
      case True
      with mbs have pos: "0 \<le> bs - int m" "bs - int m \<le> int n"
        by (auto simp: k_def)
      show ?thesis
      proof (cases "np_stack (py_slice_from t' 1)")
        case (Inl e)
        with run proj Some g0 ct g0' hdt' True show ?thesis
          by (auto simp: process_row_group_def Let_def)
      next
        case (Inr stacked)
        obtain evs' r' where sas: "slice_and_store self bs None rglist (bs - int m) = (evs', r')"
          by (cases "slice_and_store self bs None rglist (bs - int m)")
        from run proj Some g0 ct g0' hdt hdt' True Inr sas
        have res: "evs = Yield None (hd t', stacked) # evs'" "r = r'"
          by (auto simp: process_row_group_def Let_def)
        from slice_and_store_inv [OF bs rne rlen rect pos sas] res hdt' True
        show ?thesis by simp
      qed
    qed
  qed
qed

subsection \<open>The tail invariant along the whole run\<close>

lemma for_loop_inv:
  assumes bs: "0 < bs" and ne: "fields_attr self \<noteq> []"
    and nf: "num_fields self = length (fields_attr self)"
  shows "well_formed_reader self reader \<Longrightarrow> tail_ok bs (num_fields self) tail \<Longrightarrow>
     for_loop self bs tail reader = (evs, r) \<Longrightarrow>
     (\<forall>ev \<in> set evs. event_ok bs (num_fields self) ev)"
proof (induction reader arbitrary: tail evs r)
  case Nil
  then show ?case by auto
next
  case (Cons rg reader)
  from Cons.prems(1) have wf: "well_formed (fields_attr self) rg (rows self rg)"
    and wfr: "well_formed_reader self reader"
    by (simp_all add: well_formed_reader_def)
  obtain evs1 r1 where p: "process_row_group self bs tail rg = (evs1, r1)"
    by (cases "process_row_group self bs tail rg")
  from process_row_group_inv [OF bs ne nf wf Cons.prems(2) p]
  have ys: "\<forall>ev \<in> set evs1. \<exists>l f. ev = Yield None (l, f) \<and> int (length l) = bs"
    and tl: "\<forall>t. r1 = Inr t \<longrightarrow> tail_ok bs (num_fields self) t"
    by simp_all
  from ys have ok1: "\<forall>ev \<in> set evs1. event_ok bs (num_fields self) ev" by fastforce
  show ?case
  proof (cases r1)
    case (Inl e)
    with Cons.prems p ok1 show ?thesis by auto
  next
    case (Inr tail')
    obtain evs2 r2 where rec: "for_loop self bs tail' reader = (evs2, r2)"
      by (cases "for_loop self bs tail' reader")
    from tl Inr have "tail_ok bs (num_fields self) tail'" by simp
    from Cons.IH [OF wfr this rec]
    have "\<forall>ev \<in> set evs2. event_ok bs (num_fields self) ev" .
    with Cons.prems p Inr rec ok1 show ?thesis by auto
  qed
qed

subsection \<open>Readers built by the constructor\<close>

lemma init_fields_nonempty:
  "fields_attr (PNNDataReader_init urls b epochs shuffle seed count cur) \<noteq> []"
  by (simp add: PNNDataReader_init_def)

lemma init_num_fields:
  "num_fields (PNNDataReader_init urls b epochs shuffle seed count cur) =
   length (fields_attr (PNNDataReader_init urls b epochs shuffle seed count cur))"
  by (simp add: PNNDataReader_init_def)

lemma tail_ok_invariant: "tail_ok bs nf tail \<Longrightarrow> 0 < nf \<Longrightarrow> tail_invariant bs tail"
  by (cases tail) (auto simp: tail_ok_def tail_invariant_def list_all_iff)

lemma tails_invariant:
  "\<forall>ev \<in> set evs. event_ok bs nf ev \<Longrightarrow> 0 < nf \<Longrightarrow> list_all (tail_invariant bs) (tails evs)"
proof (induction evs)
  case Nil
  then show ?case by simp
next
  case (Cons ev evs)
  have none: "tail_invariant bs None" by (simp add: tail_invariant_def)
  from Cons show ?case
    by (cases ev) (auto simp: tail_ok_invariant none)
qed

lemma batches_label_length:
  "\<forall>ev \<in> set evs. event_ok bs nf ev \<Longrightarrow>
   list_all (\<lambda>(label, features). int (length label) = bs) (batches evs)"
proof (induction evs)
  case Nil
  then show ?case by simp
next
  case (Cons ev evs)
  then show ?case by (cases ev) auto
qed

lemma run_events_ok:
  assumes "self = PNNDataReader_init urls b epochs shuffle seed count cur"
    and "well_formed_reader self reader"
    and "0 < chosen_batch_size self arg"
  shows "\<forall>ev \<in> set (fst (get_batches self reader arg)).
           event_ok (chosen_batch_size self arg) (num_fields self) ev"
proof -
  obtain evs r where run: "for_loop self (chosen_batch_size self arg) None reader = (evs, r)"
    by (cases "for_loop self (chosen_batch_size self arg) None reader")
  have "tail_ok (chosen_batch_size self arg) (num_fields self) None"
    by (simp add: tail_ok_def)
  from for_loop_inv [OF assms(3) _ _ assms(2) this run] assms(1) run
  show ?thesis
    by (simp add: get_batches_def init_fields_nonempty init_num_fields)
qed

subsection \<open>A batch size that is not positive\<close>

text \<open>With a batch size of zero or below, the slicing loop never leaves its first row
  group normally: the slice of the column list is empty after at most one yield and
  \<^verbatim>\<open>np.stack\<close> raises. No tail is ever stored.\<close>

lemma py_slice_same: "py_slice xs i i = []"
  by (simp add: py_slice_def)

lemma project_length: "project rgdict fs = Inr cols \<Longrightarrow> length cols = length fs"
  by (induction fs arbitrary: cols) (auto split: option.splits sum.splits)

lemma slicing_loop_tails:
  "list_all (\<lambda>t. t = tail) (tails (fst (slicing_loop bs tail rglist pos)))"
proof (induction bs tail rglist pos rule: slicing_loop.induct)
  case (1 bs tail rglist pos)
  show ?case
  proof (cases "py_get rglist 0")
    case (Inl e)
    then show ?thesis by (simp add: slicing_loop.simps [of bs tail rglist pos])
  next
    case c0: (Inr c0)
    show ?thesis
    proof (cases "pos + bs \<le> int (length c0)")
      case False
      with c0 show ?thesis by (simp add: slicing_loop.simps [of bs tail rglist pos])
    next
      case True
      show ?thesis
      proof (cases "np_stack (py_slice (py_slice_from rglist 1) pos (pos + bs))")
        case (Inl e)
        with c0 True show ?thesis by (simp add: slicing_loop.simps [of bs tail rglist pos])
      next
        case (Inr stacked)
        from "1.IH" [OF c0 True refl refl Inr] c0 True Inr show ?thesis
          by (auto simp: slicing_loop.simps [of bs tail rglist pos] split: prod.splits)
      qed
    qed
  qed
qed

lemma slicing_loop_nonpos_raises:
  "bs \<le> 0 \<Longrightarrow> rglist \<noteq> [] \<Longrightarrow> pos \<le> int (length (hd rglist)) \<Longrightarrow>
   \<exists>e. snd (slicing_loop bs tail rglist pos) = Inl e"
proof (induction bs tail rglist pos rule: slicing_loop.induct)
  case (1 bs tail rglist pos)
  from \<open>rglist \<noteq> []\<close> have c0: "py_get rglist 0 = Inr (hd rglist)"
    by (simp add: py_get_def hd_conv_nth)
  from "1.prems" have le: "pos + bs \<le> int (length (hd rglist))" by simp
  show ?case
  proof (cases "np_stack (py_slice (py_slice_from rglist 1) pos (pos + bs))")
    case (Inl e)
    with c0 le show ?thesis by (simp add: slicing_loop.simps [of bs tail rglist pos])
  next
    case (Inr stacked)
    from "1.IH" [OF c0 le refl refl Inr "1.prems"(1) "1.prems"(2) le] c0 le Inr show ?thesis
      by (auto simp: slicing_loop.simps [of bs tail rglist pos] split: prod.splits)
  qed
qed

lemma slicing_loop_zero: "fst (slicing_loop 0 tail rglist pos) = []"
  by (simp add: slicing_loop.simps [of 0 tail rglist pos] py_slice_same np_stack_def
      split: sum.splits)

lemma for_loop_nonpos:
  assumes bs: "bs \<le> 0" and ne: "fields_attr self \<noteq> []"
    and run: "for_loop self bs None reader = (evs, r)"
  shows "list_all (\<lambda>t. t = None) (tails evs) \<and> (bs = 0 \<longrightarrow> batches evs = [])"
proof (cases reader)
  case Nil
  with run show ?thesis by auto
next
  case (Cons rg rest)
  show ?thesis
  proof (cases "project rg (fields_attr self)")
    case (Inl e)
    with run Cons show ?thesis
      by (auto simp: process_row_group_def)
  next
    case (Inr rglist)
    with ne have rne: "rglist \<noteq> []"
      using project_length [of rg "fields_attr self" rglist] by auto
    obtain evs' r' where loop: "slicing_loop bs None rglist 0 = (evs', r')"
      by (cases "slicing_loop bs None rglist 0")
    from slicing_loop_nonpos_raises [OF bs rne, of 0 None] loop
    obtain e where r': "r' = Inl e" by auto
    from slicing_loop_tails [of None bs rglist 0] loop
    have t: "list_all (\<lambda>t. t = None) (tails evs')" by simp
    from slicing_loop_zero [of None rglist 0] loop
    have z: "bs = 0 \<Longrightarrow> evs' = []" by auto
    from run Cons Inr loop r' have "evs = Pull None # evs'"
      by (auto simp: process_row_group_def slice_and_store_def)
    with t z show ?thesis by auto
  qed
qed

lemma run_nonpos:
  assumes "self = PNNDataReader_init urls b epochs shuffle seed count cur"
    and "chosen_batch_size self arg \<le> 0"
  shows "list_all (\<lambda>t. t = None) (tails (fst (get_batches self reader arg))) \<and>
         (chosen_batch_size self arg = 0 \<longrightarrow> batches (fst (get_batches self reader arg)) = [])"
proof -
  obtain evs r where run: "for_loop self (chosen_batch_size self arg) None reader = (evs, r)"
    by (cases "for_loop self (chosen_batch_size self arg) None reader")
  from assms(1) have "fields_attr self \<noteq> []"
    by (simp add: init_fields_nonempty)
  from run have g: "fst (get_batches self reader arg) = evs"
    by (simp add: get_batches_def)
  from for_loop_nonpos [OF assms(2) \<open>fields_attr self \<noteq> []\<close> run] show ?thesis
    unfolding g .
qed

subsection \<open>The invariant of the tail and the size of the labels\<close>

text \<open>
  Claim C5. On well-formed row groups, at every point where the generator pulls the next
  row group and at every point where it yields a batch, the variable \<^verbatim>\<open>tail\<close> (the
  only tail buffer there is) is \<^verbatim>\<open>None\<close>, or its columns all have the same length and
  that length is below the batch size. This holds for every batch size.
\<close>

theorem tail_invariant_at_every_point:
  assumes "self = PNNDataReader_init urls b epochs shuffle seed count cur"
    and "well_formed_reader self reader"
  shows "list_all (tail_invariant (chosen_batch_size self arg))
           (tails (fst (get_batches self reader arg)))"
proof (cases "0 < chosen_batch_size self arg")
  case True
  from assms(1) have "0 < num_fields self"
    using init_fields_nonempty [of urls b epochs shuffle seed count cur]
    by (simp add: init_num_fields)
  with run_events_ok [OF assms True] show ?thesis
    by (rule tails_invariant)
next
  case False
  then have "chosen_batch_size self arg \<le> 0" by simp
  from run_nonpos [OF assms(1) this, THEN conjunct1]
  have "list_all (\<lambda>t. t = None) (tails (fst (get_batches self reader arg)))" .
  then show ?thesis
    by (auto simp: list_all_iff tail_invariant_def)
qed

theorem tail_invariant_at_every_point_witness:
  "well_formed_reader (PNNDataReader_init [] 2 None False 1234 1 0)
     [sample_row_group 0 3, sample_row_group 3 1]
   \<and> list_all (tail_invariant (chosen_batch_size (PNNDataReader_init [] 2 None False 1234 1 0) None))
       (tails (fst (get_batches (PNNDataReader_init [] 2 None False 1234 1 0)
          [sample_row_group 0 3, sample_row_group 3 1] None)))"
proof -
  have wf: "well_formed_reader (PNNDataReader_init [] 2 None False 1234 1 0)
     [sample_row_group 0 3, sample_row_group 3 1]"
    by code_simp
  from tail_invariant_at_every_point [OF refl wf] wf show ?thesis
    by simp
qed

text \<open>
  Claim C10 says that every batch yielded on well-formed row groups has a label array of
  exactly \<^verbatim>\<open>batch_size\<close> elements, whatever the batch size. Nothing guards the batch
  size: with a batch size of \<open>-1\<close> and one row group of 2 rows, the slicing loop
  yields one batch whose label is \<^verbatim>\<open>rglist[0][0:-1]\<close>, of 1 element.
\<close>

theorem negative_batch_size_counterexample:
  "well_formed_reader (PNNDataReader_init [] (- 1) None False 1234 1 0) [sample_row_group 0 2]
   \<and> chosen_batch_size (PNNDataReader_init [] (- 1) None False 1234 1 0) None = - 1
   \<and> map fst (batches (fst (get_batches (PNNDataReader_init [] (- 1) None False 1234 1 0)
         [sample_row_group 0 2] None))) = [[(''Label'', 0)]]"
  by code_simp

text \<open>
  Claim C10, amended. On well-formed row groups and with a batch size that is not
  negative, every batch that \<^verbatim>\<open>get_batches\<close> yields, on the path that completes a
  tail and in the slicing loop alike, has a label array of exactly \<^verbatim>\<open>batch_size\<close>
  elements.
\<close>

theorem every_label_has_batch_size:
  assumes "self = PNNDataReader_init urls b epochs shuffle seed count cur"
    and "well_formed_reader self reader"
    and "0 \<le> chosen_batch_size self arg"
  shows "list_all (\<lambda>(label, features). int (length label) = chosen_batch_size self arg)
           (batches (fst (get_batches self reader arg)))"
proof (cases "0 < chosen_batch_size self arg")
  case True
  from run_events_ok [OF assms(1) assms(2) True] show ?thesis
    by (rule batches_label_length)
next
  case False
  with assms(3) have zero: "chosen_batch_size self arg = 0" by simp
  then have "chosen_batch_size self arg \<le> 0" by simp
  from run_nonpos [OF assms(1) this, THEN conjunct2, rule_format, OF zero]
  have "batches (fst (get_batches self reader arg)) = []" .
  then show ?thesis by simp
qed

theorem every_label_has_batch_size_witness:
  "well_formed_reader (PNNDataReader_init [] 2 None False 1234 1 0)
     [sample_row_group 0 1, sample_row_group 1 3]
   \<and> 0 \<le> chosen_batch_size (PNNDataReader_init [] 2 None False 1234 1 0) None
   \<and> list_all (\<lambda>(label, features). int (length label) =
          chosen_batch_size (PNNDataReader_init [] 2 None False 1234 1 0) None)
       (batches (fst (get_batches (PNNDataReader_init [] 2 None False 1234 1 0)
          [sample_row_group 0 1, sample_row_group 1 3] None)))"
proof -
  have wf: "well_formed_reader (PNNDataReader_init [] 2 None False 1234 1 0)
     [sample_row_group 0 1, sample_row_group 1 3]"
    by code_simp
  have bs: "0 \<le> chosen_batch_size (PNNDataReader_init [] 2 None False 1234 1 0) None"
    by code_simp
  from every_label_has_batch_size [OF refl wf bs] wf bs show ?thesis
    by simp
qed

subsection \<open>A row group that does not complete the tail\<close>

lemma map2_append_nth:
  "length xs = length ys \<Longrightarrow> map (\<lambda>i. xs ! i @ ys ! i) [0..<length xs] = map2 (@) xs ys"
  by (rule nth_equalityI) simp_all

text \<open>
  Claim C4. When a tail exists and a well-formed row group is too short to complete it
  (the length of the tail plus the rows of the group stay below \<^verbatim>\<open>batch_size\<close>), the
  body of the loop yields no batch, and the tail it leaves holds, in every column and in
  order, the rows of the old tail followed by all the rows of the row group.
\<close>

theorem short_tail_keeps_all_rows:
  assumes self: "self = PNNDataReader_init urls b epochs shuffle seed count cur"
    and wf: "well_formed (fields_attr self) rgdict n"
    and tlen: "length t = num_fields self"
    and trect: "\<forall>c \<in> set t. length c = m"
    and short: "int m + int n < bs"
  shows "process_row_group self bs (Some t) rgdict =
     ([], Inr (Some (map2 (@) t (map (\<lambda>f. the (rgdict f)) (fields_attr self)))))"
proof -
  define rglist where "rglist = map (\<lambda>f. the (rgdict f)) (fields_attr self)"
  from self have nf: "num_fields self = length (fields_attr self)"
    and ne: "fields_attr self \<noteq> []"
    by (simp_all add: init_num_fields init_fields_nonempty)
  from wf have proj: "project rgdict (fields_attr self) = Inr rglist"
    by (simp add: project_well_formed rglist_def)
  from nf have rlen: "length rglist = num_fields self" by (simp add: rglist_def)
  from wf have rect: "\<forall>c \<in> set rglist. length c = n"
    by (auto simp: rglist_def well_formed_length)
  from tlen nf ne have tne: "t \<noteq> []" by auto
  then have g0: "py_get t 0 = Inr (hd t)"
    by (simp add: py_get_def hd_conv_nth)
  define t' where "t' = map2 (@) t rglist"
  have whole: "take (nat (bs - int m)) (rglist ! i) = rglist ! i" if "i < num_fields self" for i
  proof -
    from that rect rlen have "length (rglist ! i) = n" by simp
    with short show ?thesis by simp
  qed
  have "complete_tail bs t rglist [0..<num_fields self] =
      Inr (map (\<lambda>i. t ! i @ rglist ! i) [0..<num_fields self])"
    using tlen rlen trect short whole
    by (simp add: complete_tail_eq py_slice_nonneg)
  with tlen rlen have ct: "complete_tail bs t rglist [0..<num_fields self] = Inr t'"
    using map2_append_nth [of t rglist] by (simp add: t'_def)
  from tne rlen tlen have t'ne: "t' \<noteq> []"
    by (cases t; cases rglist) (auto simp: t'_def)
  then have g0': "py_get t' 0 = Inr (hd t')"
    by (simp add: py_get_def hd_conv_nth)
  from tne rlen tlen trect rect have "length (hd t') = m + n"
    by (cases t; cases rglist) (auto simp: t'_def)
  with short have "int (length (hd t')) \<noteq> bs" by simp
  with proj g0 ct g0' show ?thesis
    by (simp add: process_row_group_def Let_def t'_def rglist_def)
qed

theorem short_tail_keeps_all_rows_witness:
  "well_formed (fields_attr (PNNDataReader_init [] 4 None False 1234 1 0)) (sample_row_group 1 2) 2
   \<and> process_row_group (PNNDataReader_init [] 4 None False 1234 1 0) 4
       (Some (map (\<lambda>f. [(f, 0)]) (fields_attr (PNNDataReader_init [] 4 None False 1234 1 0))))
       (sample_row_group 1 2) =
     ([], Inr (Some (map (\<lambda>f. [(f, 0), (f, 1), (f, 2)])
        (fields_attr (PNNDataReader_init [] 4 None False 1234 1 0)))))"
proof -
  let ?self = "PNNDataReader_init [] 4 None False 1234 1 0"
  let ?t = "map (\<lambda>f. [(f, 0::nat)]) (fields_attr ?self)"
  have wf: "well_formed (fields_attr ?self) (sample_row_group 1 2) 2"
    by code_simp
  have tlen: "length ?t = num_fields ?self"
    by (simp add: init_num_fields)
  have trect: "\<forall>c \<in> set ?t. length c = 1"
    by auto
  have short: "int 1 + int 2 < 4"
    by simp
  have cols: "map2 (@) ?t (map (\<lambda>f. the (sample_row_group 1 2 f)) (fields_attr ?self)) =
      map (\<lambda>f. [(f, 0), (f, 1), (f, 2)]) (fields_attr ?self)"
    by code_simp
  from short_tail_keeps_all_rows [OF refl wf tlen trect short] wf cols show ?thesis
    by simp
qed

subsection \<open>What a run reads of the object, and the empty reader\<close>

lemma slice_and_store_cong:
  assumes "num_fields s1 = num_fields s2"
  shows "slice_and_store s1 bs tail rglist pos = slice_and_store s2 bs tail rglist pos"
  unfolding slice_and_store_def assms by (rule refl)

lemma process_row_group_cong:
  assumes "fields_attr s1 = fields_attr s2" and "num_fields s1 = num_fields s2"
  shows "process_row_group s1 bs tail rgdict = process_row_group s2 bs tail rgdict"
  unfolding process_row_group_def assms slice_and_store_cong [OF assms(2)] by (rule refl)

lemma for_loop_cong:
  "fields_attr s1 = fields_attr s2 \<Longrightarrow> num_fields s1 = num_fields s2 \<Longrightarrow>
   for_loop s1 bs tail reader = for_loop s2 bs tail reader"
  by (induction reader arbitrary: tail) (simp_all add: process_row_group_cong [of s1 s2])

text \<open>The result depends on the reader object through its batch size alone: the schema
  is the same for every object that the constructor builds.\<close>

lemma get_batches_reads_batch_size_only:
  "get_batches (PNNDataReader_init urls1 b epochs1 shuffle1 seed1 count1 cur1) reader arg =
   get_batches (PNNDataReader_init urls2 b epochs2 shuffle2 seed2 count2 cur2) reader arg"
proof -
  let ?s1 = "PNNDataReader_init urls1 b epochs1 shuffle1 seed1 count1 cur1"
  let ?s2 = "PNNDataReader_init urls2 b epochs2 shuffle2 seed2 count2 cur2"
  have f: "fields_attr ?s1 = fields_attr ?s2" and n: "num_fields ?s1 = num_fields ?s2"
    by (simp_all add: PNNDataReader_init_def)
  have c: "chosen_batch_size ?s1 arg = chosen_batch_size ?s2 arg"
    by (cases arg) (simp_all add: PNNDataReader_init_def chosen_batch_size_def)
  from for_loop_cong [OF f n] c show ?thesis
    by (simp add: get_batches_def)
qed

text \<open>
  Claim C9. On a reader that delivers no row group, \<^verbatim>\<open>get_batches\<close> yields no batch
  and returns normally, with no error and no tail.
\<close>

theorem empty_reader_no_batches:
  "batches (fst (get_batches self [] arg)) = [] \<and> snd (get_batches self [] arg) = Inr None"
  by (simp add: get_batches_def)

subsection \<open>Two runs of the generator\<close>

inductive_cases step_Entry: "step (self, Entry reader arg) l s'"
inductive_cases step_ForHead_Nil: "step (self, ForHead bs tail []) l s'"
inductive_cases step_ForHead_None: "step (self, ForHead bs None (rg # reader)) l s'"
inductive_cases step_ForHead_Some: "step (self, ForHead bs (Some t) (rg # reader)) l s'"
inductive_cases step_WhileHead: "step (self, WhileHead bs tail reader rglist pos) l s'"
inductive_cases step_Returned: "step (self, Returned) l s'"
inductive_cases step_Raised: "step (self, Raised e) l s'"

lemma step_deterministic:
  "step s l1 s1 \<Longrightarrow> step s l2 s2 \<Longrightarrow> l1 = l2 \<and> s1 = s2"
proof (induction rule: step.induct)
  case (entry self reader arg)
  then show ?case by (auto elim: step_Entry)
next
  case (exhausted self bs tail)
  then show ?case by (auto elim: step_ForHead_Nil)
next
  case (project_raises rg self e bs tail reader)
  then show ?case by (cases tail) (auto elim: step_ForHead_None step_ForHead_Some)
next
  case (no_tail rg self rglist bs reader)
  then show ?case by (auto elim: step_ForHead_None)
next
  case (tail_index_raises rg self rglist t e bs reader)
  then show ?case by (auto elim!: step_ForHead_Some)
next
  case (complete_raises rg self rglist t t0 bs e reader)
  then show ?case by (auto elim!: step_ForHead_Some)
next
  case (completed_index_raises rg self rglist t t0 bs t' e reader)
  then show ?case by (auto elim!: step_ForHead_Some)
next
  case (tail_stack_raises rg self rglist t t0 bs t' t0' e reader)
  then show ?case by (auto elim!: step_ForHead_Some)
next
  case (tail_completed rg self rglist t t0 bs t' t0' stacked reader)
  then show ?case by (auto elim!: step_ForHead_Some)
next
  case (tail_short rg self rglist t t0 bs t' t0' reader)
  then show ?case by (auto elim!: step_ForHead_Some)
next
  case (while_index_raises rglist e self bs tail reader pos)
  then show ?case by (auto elim!: step_WhileHead)
next
  case (while_stack_raises rglist c0 pos bs e self tail reader)
  then show ?case by (auto elim!: step_WhileHead)
next
  case (while_yield rglist c0 pos bs stacked self tail reader)
  then show ?case by (auto elim!: step_WhileHead)
next
  case (store_raises rglist c0 pos bs self e tail reader)
  then show ?case by (auto elim!: step_WhileHead)
next
  case (store_tail rglist c0 pos bs self t tail reader)
  then show ?case by (auto elim!: step_WhileHead)
next
  case (keep_tail rglist c0 pos bs self tail reader)
  then show ?case by (auto elim!: step_WhileHead)
qed


lemma step_self: "step s l s' \<Longrightarrow> fst s' = fst s"
  by (induction rule: step.induct) simp_all

lemma runs_self: "runs s tr s' \<Longrightarrow> fst s' = fst s"
  by (induction rule: runs.induct) (simp_all add: step_self)

lemma terminal_no_step: "step s l s' \<Longrightarrow> \<not> terminal (snd s)"
  by (induction rule: step.induct) simp_all

lemma runs_deterministic:
  "runs s tr1 s1 \<Longrightarrow> terminal (snd s1) \<Longrightarrow> runs s tr2 s2 \<Longrightarrow> terminal (snd s2) \<Longrightarrow>
   tr1 = tr2 \<and> s1 = s2"
proof (induction arbitrary: tr2 s2 rule: runs.induct)
  case (stop s)
  from stop.prems(2) stop.prems(1) stop.prems(3) show ?case
    by (cases rule: runs.cases) (auto dest: terminal_no_step)
next
  case (silent s s' bs s'')
  from silent.prems(2) show ?case
  proof (cases rule: runs.cases)
    case stop
    with silent.hyps(1) silent.prems(3) show ?thesis
      by (auto dest: terminal_no_step)
  next
    case (silent u)
    with silent.hyps(1) have "u = s'"
      using step_deterministic by blast
    with silent.IH silent.prems(1,3) silent(2) show ?thesis by blast
  next
    case (yield b u bs')
    with silent.hyps(1) show ?thesis
      using step_deterministic by blast
  qed
next
  case (yield s b s' bs s'')
  from yield.prems(2) show ?case
  proof (cases rule: runs.cases)
    case stop
    with yield.hyps(1) yield.prems(3) show ?thesis
      by (auto dest: terminal_no_step)
  next
    case (silent u)
    with yield.hyps(1) show ?thesis
      using step_deterministic by blast
  next
    case (yield b' u bs')
    with yield.hyps(1) have "b' = b \<and> u = s'"
      using step_deterministic by blast
    with yield.IH yield.prems(1,3) yield(1,3) show ?thesis by blast
  qed
qed

lemma runs_append: "runs s tr1 s' \<Longrightarrow> runs s' tr2 s'' \<Longrightarrow> runs s (tr1 @ tr2) s''"
  by (induction rule: runs.induct) (auto intro: runs.intros)

lemma batches_append: "batches (evs @ evs') = batches evs @ batches evs'"
  by (induction evs rule: batches.induct) simp_all


lemma slicing_loop_exit:
  "snd (slicing_loop bs tail rglist pos) = Inr p \<Longrightarrow>
   \<exists>c0. py_get rglist 0 = Inr c0 \<and> \<not> p + bs \<le> int (length c0)"
proof (induction bs tail rglist pos rule: slicing_loop.induct)
  case (1 bs tail rglist pos)
  show ?case
  proof (cases "py_get rglist 0")
    case (Inl e)
    with "1.prems" show ?thesis by (simp add: slicing_loop.simps [of bs tail rglist pos])
  next
    case c0: (Inr c0)
    show ?thesis
    proof (cases "pos + bs \<le> int (length c0)")
      case False
      with c0 "1.prems" show ?thesis
        by (simp add: slicing_loop.simps [of bs tail rglist pos])
    next
      case True
      show ?thesis
      proof (cases "np_stack (py_slice (py_slice_from rglist 1) pos (pos + bs))")
        case (Inl e)
        with c0 True "1.prems" show ?thesis
          by (simp add: slicing_loop.simps [of bs tail rglist pos])
      next
        case (Inr stacked)
        with c0 True "1.prems" have "snd (slicing_loop bs tail rglist (pos + bs)) = Inr p"
          by (simp add: slicing_loop.simps [of bs tail rglist pos] split: prod.splits)
        from "1.IH" [OF c0 True refl refl Inr this] show ?thesis .
      qed
    qed
  qed
qed

lemma slicing_loop_runs:
  "runs (self, WhileHead bs tail reader rglist pos)
     (batches (fst (slicing_loop bs tail rglist pos)))
     (self, case snd (slicing_loop bs tail rglist pos) of
              Inl e \<Rightarrow> Raised e | Inr p \<Rightarrow> WhileHead bs tail reader rglist p)"
proof (induction bs tail rglist pos rule: slicing_loop.induct)
  case (1 bs tail rglist pos)
  show ?case
  proof (cases "py_get rglist 0")
    case (Inl e)
    then have "step (self, WhileHead bs tail reader rglist pos) None (self, Raised e)"
      by (rule step.while_index_raises)
    then have "runs (self, WhileHead bs tail reader rglist pos) [] (self, Raised e)"
      by (rule runs.silent) (rule runs.stop)
    with Inl show ?thesis by (simp add: slicing_loop.simps [of bs tail rglist pos])
  next
    case c0: (Inr c0)
    show ?thesis
    proof (cases "pos + bs \<le> int (length c0)")
      case False
      with c0 show ?thesis
        by (simp add: slicing_loop.simps [of bs tail rglist pos] runs.stop)
    next
      case True
      show ?thesis
      proof (cases "np_stack (py_slice (py_slice_from rglist 1) pos (pos + bs))")
        case (Inl e)
        with c0 True have "step (self, WhileHead bs tail reader rglist pos) None (self, Raised e)"
          by (rule step.while_stack_raises)
        then have "runs (self, WhileHead bs tail reader rglist pos) [] (self, Raised e)"
          by (rule runs.silent) (rule runs.stop)
        with c0 True Inl show ?thesis by (simp add: slicing_loop.simps [of bs tail rglist pos])
      next
        case (Inr stacked)
        with c0 True have "step (self, WhileHead bs tail reader rglist pos)
            (Some (py_slice c0 pos (pos + bs), stacked))
            (self, WhileHead bs tail reader rglist (pos + bs))"
          by (rule step.while_yield)
        from runs.yield [OF this "1.IH" [OF c0 True refl refl Inr]] c0 True Inr
        show ?thesis
          by (cases "slicing_loop bs tail rglist (pos + bs)")
             (simp add: slicing_loop.simps [of bs tail rglist pos])
      qed
    qed
  qed
qed


lemma runs_silent_end: "runs s tr s' \<Longrightarrow> step s' None s'' \<Longrightarrow> runs s tr s''"
  using runs_append [of s tr s' "[]" s''] by (simp add: runs.silent runs.stop)

lemma slice_and_store_runs:
  "runs (self, WhileHead bs tail reader rglist pos)
     (batches (fst (slice_and_store self bs tail rglist pos)))
     (self, case snd (slice_and_store self bs tail rglist pos) of
              Inl e \<Rightarrow> Raised e | Inr t \<Rightarrow> ForHead bs t reader)"
proof -
  obtain evs r where loop: "slicing_loop bs tail rglist pos = (evs, r)"
    by (cases "slicing_loop bs tail rglist pos")
  from slicing_loop_runs [of self bs tail reader rglist pos] loop
  have lr: "runs (self, WhileHead bs tail reader rglist pos) (batches evs)
      (self, case r of Inl e \<Rightarrow> Raised e | Inr p \<Rightarrow> WhileHead bs tail reader rglist p)"
    by simp
  show ?thesis
  proof (cases r)
    case (Inl e)
    with lr loop show ?thesis by (simp add: slice_and_store_def)
  next
    case (Inr p)
    with slicing_loop_exit [of bs tail rglist pos p] loop
    obtain c0 where c0: "py_get rglist 0 = Inr c0" and ex: "\<not> p + bs \<le> int (length c0)"
      by auto
    from lr Inr have at: "runs (self, WhileHead bs tail reader rglist pos) (batches evs)
        (self, WhileHead bs tail reader rglist p)"
      by simp
    show ?thesis
    proof (cases "p = int (length c0)")
      case True
      from c0 ex True have "step (self, WhileHead bs tail reader rglist p) None
          (self, ForHead bs tail reader)"
        by (rule step.keep_tail)
      from runs_silent_end [OF at this] loop Inr c0 True show ?thesis
        by (simp add: slice_and_store_def)
    next
      case False
      show ?thesis
      proof (cases "new_tail rglist p [0..<num_fields self]")
        case (Inl e)
        with c0 ex False have "step (self, WhileHead bs tail reader rglist p) None
            (self, Raised e)"
          by (rule step.store_raises)
        from runs_silent_end [OF at this] loop Inr c0 False Inl show ?thesis
          by (simp add: slice_and_store_def)
      next
        case t: (Inr t)
        with c0 ex False have "step (self, WhileHead bs tail reader rglist p) None
            (self, ForHead bs (Some t) reader)"
          by (rule step.store_tail)
        from runs_silent_end [OF at this] loop Inr c0 False t show ?thesis
          by (simp add: slice_and_store_def)
      qed
    qed
  qed
qed

lemma process_row_group_runs:
  "runs (self, ForHead bs tail (rg # reader))
     (batches (fst (process_row_group self bs tail rg)))
     (self, case snd (process_row_group self bs tail rg) of
              Inl e \<Rightarrow> Raised e | Inr t \<Rightarrow> ForHead bs t reader)"
proof (cases "project rg (fields_attr self)")
  case (Inl e)
  then have "step (self, ForHead bs tail (rg # reader)) None (self, Raised e)"
    by (rule step.project_raises)
  then have "runs (self, ForHead bs tail (rg # reader)) [] (self, Raised e)"
    by (rule runs.silent) (rule runs.stop)
  with Inl show ?thesis by (simp add: process_row_group_def)
next
  case proj: (Inr rglist)
  show ?thesis
  proof (cases tail)
    case None
    from proj have "step (self, ForHead bs None (rg # reader)) None
        (self, WhileHead bs None reader rglist 0)"
      by (rule step.no_tail)
    from runs.silent [OF this slice_and_store_runs] proj None show ?thesis
      by (simp add: process_row_group_def)
  next
    case (Some t)
    show ?thesis
    proof (cases "py_get t 0")
      case (Inl e)
      with proj have "step (self, ForHead bs (Some t) (rg # reader)) None (self, Raised e)"
        by (rule step.tail_index_raises)
      then have "runs (self, ForHead bs (Some t) (rg # reader)) [] (self, Raised e)"
        by (rule runs.silent) (rule runs.stop)
      with proj Some Inl show ?thesis by (simp add: process_row_group_def)
    next
      case t0: (Inr t0)
      show ?thesis
      proof (cases "complete_tail bs t rglist [0..<num_fields self]")
        case (Inl e)
        with proj t0 have "step (self, ForHead bs (Some t) (rg # reader)) None (self, Raised e)"
          by (rule step.complete_raises)
        then have "runs (self, ForHead bs (Some t) (rg # reader)) [] (self, Raised e)"
          by (rule runs.silent) (rule runs.stop)
        with proj Some t0 Inl show ?thesis by (simp add: process_row_group_def)
      next
        case t': (Inr t')
        show ?thesis
        proof (cases "py_get t' 0")
          case (Inl e)
          with proj t0 t' have "step (self, ForHead bs (Some t) (rg # reader)) None (self, Raised e)"
            by (rule step.completed_index_raises)
          then have "runs (self, ForHead bs (Some t) (rg # reader)) [] (self, Raised e)"
            by (rule runs.silent) (rule runs.stop)
          with proj Some t0 t' Inl show ?thesis by (simp add: process_row_group_def)
        next
          case t0': (Inr t0')
          show ?thesis
          proof (cases "int (length t0') = bs")
            case False
            with proj t0 t' t0' have "step (self, ForHead bs (Some t) (rg # reader)) None
                (self, ForHead bs (Some t') reader)"
              by (rule step.tail_short)
            then have "runs (self, ForHead bs (Some t) (rg # reader)) []
                (self, ForHead bs (Some t') reader)"
              by (rule runs.silent) (rule runs.stop)
            with proj Some t0 t' t0' False show ?thesis by (simp add: process_row_group_def)
          next
            case True
            show ?thesis
            proof (cases "np_stack (py_slice_from t' 1)")
              case (Inl e)
              with proj t0 t' t0' True
              have "step (self, ForHead bs (Some t) (rg # reader)) None (self, Raised e)"
                by (rule step.tail_stack_raises)
              then have "runs (self, ForHead bs (Some t) (rg # reader)) [] (self, Raised e)"
                by (rule runs.silent) (rule runs.stop)
              with proj Some t0 t' t0' True Inl show ?thesis
                by (simp add: process_row_group_def)
            next
              case (Inr stacked)
              with proj t0 t' t0' True
              have "step (self, ForHead bs (Some t) (rg # reader)) (Some (t0', stacked))
                  (self, WhileHead bs None reader rglist (bs - int (length t0)))"
                by (rule step.tail_completed)
              from runs.yield [OF this slice_and_store_runs] proj Some t0 t' t0' True Inr
              show ?thesis
                by (cases "slice_and_store self bs None rglist (bs - int (length t0))")
                   (simp add: process_row_group_def)
            qed
          qed
        qed
      qed
    qed
  qed
qed

lemma for_loop_runs:
  "runs (self, ForHead bs tail reader)
     (batches (fst (for_loop self bs tail reader)))
     (self, case snd (for_loop self bs tail reader) of
              Inl e \<Rightarrow> Raised e | Inr t \<Rightarrow> Returned)"
proof (induction reader arbitrary: tail)
  case Nil
  have "step (self, ForHead bs tail []) None (self, Returned)"
    by (rule step.exhausted)
  then have "runs (self, ForHead bs tail []) [] (self, Returned)"
    by (rule runs.silent) (rule runs.stop)
  then show ?case by simp
next
  case (Cons rg reader)
  obtain evs r where p: "process_row_group self bs tail rg = (evs, r)"
    by (cases "process_row_group self bs tail rg")
  from process_row_group_runs [of self bs tail rg reader] p
  have body: "runs (self, ForHead bs tail (rg # reader)) (batches evs)
      (self, case r of Inl e \<Rightarrow> Raised e | Inr t \<Rightarrow> ForHead bs t reader)"
    by simp
  show ?case
  proof (cases r)
    case (Inl e)
    with body p show ?thesis by simp
  next
    case (Inr tail')
    with body have "runs (self, ForHead bs tail (rg # reader)) (batches evs)
        (self, ForHead bs tail' reader)"
      by simp
    from runs_append [OF this Cons.IH [of tail']] p Inr show ?thesis
      by (cases "for_loop self bs tail' reader") (simp add: batches_append)
  qed
qed

lemma get_batches_runs:
  "runs (self, Entry reader arg)
     (batches (fst (get_batches self reader arg)))
     (self, case snd (get_batches self reader arg) of
              Inl e \<Rightarrow> Raised e | Inr t \<Rightarrow> Returned)"
proof -
  have "step (self, Entry reader arg) None (self, ForHead (chosen_batch_size self arg) None reader)"
    by (rule step.entry)
  from runs.silent [OF this for_loop_runs] show ?thesis
    by (simp add: get_batches_def)
qed


text \<open>
  Claim C8. \<^verbatim>\<open>get_batches\<close> is deterministic. Take a first run of the generator on a
  reader object, a sequence of row groups and a batch-size argument, up to its end, and
  then a second run, on the object as the first run left it, over the same sequence and
  with the same argument. Both runs yield the same batches: the same number, in the
  same order, with the same labels and features; they end the same way, and the object
  is unchanged. The batches are those of the function \<open>get_batches\<close>; by
  \<open>get_batches_runs\<close> such a run exists for every input.
\<close>

theorem two_runs_same_batches:
  assumes "runs (self, Entry reader arg) tr1 (self1, c1)" and "terminal c1"
    and "runs (self1, Entry reader arg) tr2 (self2, c2)" and "terminal c2"
  shows "tr1 = tr2 \<and> c1 = c2 \<and> self2 = self
         \<and> tr1 = batches (fst (get_batches self reader arg))"
proof -
  from assms(1) have s1: "self1 = self"
    using runs_self by fastforce
  from assms(3) have s2: "self2 = self1"
    using runs_self by fastforce
  from assms(1) s1 have r1: "runs (self, Entry reader arg) tr1 (self, c1)" by simp
  from assms(3) s1 s2 have r2: "runs (self, Entry reader arg) tr2 (self, c2)" by simp
  from assms(2) have t1: "terminal (snd (self, c1))" by simp
  from assms(4) have t2: "terminal (snd (self, c2))" by simp
  from runs_deterministic [OF r1 t1 r2 t2] have same: "tr1 = tr2 \<and> c1 = c2" by simp
  let ?c = "case snd (get_batches self reader arg) of Inl e \<Rightarrow> Raised e | Inr t \<Rightarrow> Returned"
  have t: "terminal (snd (self, ?c))"
    by (cases "snd (get_batches self reader arg)") simp_all
  from runs_deterministic [OF r1 t1 get_batches_runs t]
  have "tr1 = batches (fst (get_batches self reader arg))" by simp
  with same s1 s2 show ?thesis by simp
qed

theorem two_runs_same_batches_witness:
  "runs (PNNDataReader_init [] 2 None False 1234 1 0, Entry [sample_row_group 0 2] None)
     [([(''Label'', 0), (''Label'', 1)],
       \<lparr>shape = (2, 2), cells = [[(''I1'', 0), (''I2'', 0)], [(''I1'', 1), (''I2'', 1)]]\<rparr>)]
     (PNNDataReader_init [] 2 None False 1234 1 0, Returned)
   \<and> terminal (Returned :: (string \<times> nat) config)
   \<and> batches (fst (get_batches (PNNDataReader_init [] 2 None False 1234 1 0)
         [sample_row_group 0 2] None)) =
     [([(''Label'', 0), (''Label'', 1)],
       \<lparr>shape = (2, 2), cells = [[(''I1'', 0), (''I2'', 0)], [(''I1'', 1), (''I2'', 1)]]\<rparr>)]"
proof -
  let ?self = "PNNDataReader_init [] 2 None False 1234 1 0"
  let ?tr = "[([(''Label'', 0::nat), (''Label'', 1)],
       \<lparr>shape = (2, 2), cells = [[(''I1'', 0), (''I2'', 0)], [(''I1'', 1), (''I2'', 1)]]\<rparr>)]"
  have b: "batches (fst (get_batches ?self [sample_row_group 0 2] None)) = ?tr"
    by code_simp
  have e: "snd (get_batches ?self [sample_row_group 0 2] None) = Inr None"
    by code_simp
  from get_batches_runs [of ?self "[sample_row_group 0 2]" None] b e
  have r: "runs (?self, Entry [sample_row_group 0 2] None) ?tr (?self, Returned)"
    by simp
  have t: "terminal (Returned :: (string \<times> nat) config)" by simp
  from two_runs_same_batches [OF r t r t] r t show ?thesis
    by simp
qed

subsection \<open>The division of the batch size among the workers\<close>

text \<open>
  Claim C6 says that the construction raises an error whenever \<^verbatim>\<open>batch_size\<close> is not
  a multiple of \<^verbatim>\<open>world_size\<close>. It does not: with a batch size of 5 and 2 workers the
  reader is built, with a batch size of 2 for each worker.
\<close>

theorem inexact_division_counterexample:
  "(5::int) mod 2 \<noteq> 0 \<and>
   make_criteo_dataloader [] 2 0 5 True = Inr (PNNDataReader_init [] 2 None True 1234 2 0)"
  by (simp add: make_criteo_dataloader_def)

text \<open>
  Claim C6, amended. For every \<^verbatim>\<open>batch_size\<close> and every \<^verbatim>\<open>world_size\<close> other than 0,
  also when the division is inexact, \<^verbatim>\<open>make_criteo_dataloader\<close> raises no error and
  returns the reader whose batch size is the floor of \<^verbatim>\<open>batch_size / world_size\<close>.
\<close>

theorem dataloader_floors_batch_size:
  "world_size \<noteq> 0 \<Longrightarrow>
   make_criteo_dataloader globbed world_size rank bs shuffle =
     Inr (PNNDataReader_init (sort (map (\<lambda>name. ''file://'' @ name) globbed))
            (bs div world_size) None
            shuffle 1234 world_size rank)"
  by (simp add: make_criteo_dataloader_def)

theorem dataloader_floors_batch_size_witness:
  "(2::int) \<noteq> 0 \<and> (7::int) mod 2 \<noteq> 0 \<and>
   make_criteo_dataloader [''b.parquet'', ''a.parquet''] 2 1 7 False =
     Inr (PNNDataReader_init [''file://a.parquet'', ''file://b.parquet''] 3 None False 1234 2 1)"
proof -
  have s: "sort (map (\<lambda>name. ''file://'' @ name) [''b.parquet'', ''a.parquet'']) =
      [''file://a.parquet'', ''file://b.parquet'']"
    by code_simp
  have d: "(7::int) div 2 = 3" by simp
  from dataloader_floors_batch_size [of 2 "[''b.parquet'', ''a.parquet'']" 1 7 False] s d
  show ?thesis by simp
qed

subsection \<open>The features of the slicing loop\<close>

lemma np_stack_rect:
  "arrays \<noteq> [] \<Longrightarrow> \<forall>c \<in> set arrays. length c = n \<Longrightarrow> \<exists>stacked. np_stack arrays = Inr stacked"
  by (cases arrays) (auto simp: np_stack_def list_all_iff)

lemma slicing_loop_no_column_left:
  assumes "rglist \<noteq> []" and "int (length rglist) - 1 \<le> pos"
    and "pos + bs \<le> int (length (hd rglist))"
  shows "slicing_loop bs tail rglist pos = ([], Inl ValueError)"
proof -
  from assms(1) have c0: "py_get rglist 0 = Inr (hd rglist)"
    by (simp add: py_get_def hd_conv_nth)
  from assms(1,2) have pos: "0 \<le> pos" by (cases rglist) auto
  from assms(2) pos have "length (py_slice_from rglist 1) \<le> nat pos"
    by (simp add: py_slice_from_nonneg)
  with pos have "py_slice (py_slice_from rglist 1) pos (pos + bs) = []"
    by (simp add: py_slice_def slice_bound_nonneg Let_def)
  with c0 assms(3) show ?thesis
    by (simp add: slicing_loop.simps [of bs tail rglist pos] np_stack_def)
qed

text \<open>With a batch size of at least the 39 feature columns, as the default of 55296 is,
  a row group that holds two batches or more gives one batch and then the error of
  \<^verbatim>\<open>np.stack\<close> on an empty list: at the second iteration the cursor is past the last
  column of the list that line 163 slices.\<close>

lemma second_batch_of_row_group_raises:
  assumes self: "self = PNNDataReader_init urls b epochs shuffle seed count cur"
    and wf: "well_formed (fields_attr self) rgdict n"
    and wide: "int (num_fields self) - 1 \<le> bs"
    and two: "2 * bs \<le> int n"
  shows "\<exists>batch. process_row_group self bs None rgdict = ([Yield None batch], Inl ValueError)"
proof -
  define rglist where "rglist = map (\<lambda>f. the (rgdict f)) (fields_attr self)"
  from self have nf: "num_fields self = length (fields_attr self)"
    and two_cols: "2 \<le> length (fields_attr self)"
    by (simp_all add: PNNDataReader_init_def num_dense_fields_def)
  from wf have proj: "project rgdict (fields_attr self) = Inr rglist"
    by (simp add: project_well_formed rglist_def)
  from nf have rlen: "length rglist = num_fields self" by (simp add: rglist_def)
  from wf have rect: "\<forall>c \<in> set rglist. length c = n"
    by (auto simp: rglist_def well_formed_length)
  from two_cols nf rlen have rne: "rglist \<noteq> []" by auto
  with rect have hd: "length (hd rglist) = n" by simp
  from rne have c0: "py_get rglist 0 = Inr (hd rglist)"
    by (simp add: py_get_def hd_conv_nth)
  from wide two_cols nf have bs: "0 < bs" by simp
  from wide rlen bs have feats: "py_slice (py_slice_from rglist 1) 0 (0 + bs) = drop 1 rglist"
    by (simp add: py_slice_nonneg py_slice_from_nonneg)
  from two_cols nf rlen have "drop 1 rglist \<noteq> []" by simp
  moreover from rect have "\<forall>c \<in> set (drop 1 rglist). length c = n"
    by (auto dest: in_set_dropD)
  ultimately obtain stacked where st: "np_stack (drop 1 rglist) = Inr stacked"
    using np_stack_rect by blast
  from two bs hd have le: "0 + bs \<le> int (length (hd rglist))" by simp
  from two hd have le2: "(0 + bs) + bs \<le> int (length (hd rglist))" by simp
  from wide rlen have "int (length rglist) - 1 \<le> 0 + bs" by simp
  from slicing_loop_no_column_left [OF rne this le2]
  have second: "slicing_loop bs None rglist (0 + bs) = ([], Inl ValueError)" .
  from c0 le feats st second
  have "slicing_loop bs None rglist 0 =
      ([Yield None (py_slice (hd rglist) 0 (0 + bs), stacked)], Inl ValueError)"
    by (simp add: slicing_loop.simps [of bs None rglist 0])
  with proj show ?thesis
    by (simp add: process_row_group_def slice_and_store_def)
qed

text \<open>
  Claim C1 says that when the rows of the input are a multiple of \<^verbatim>\<open>batch_size\<close>, every
  batch has a feature array of \<^verbatim>\<open>batch_size\<close> rows and the batches concatenate to the
  input. The run below has a batch size of 2 and one row group of 4 rows: it yields two
  batches with the right labels, but each feature array has 4 rows and 2 columns: the
  first holds the columns I1 and I2 of all four rows, the second the columns I3 and I4
  of all four rows. The slice of line 163 is taken on the list of columns, not on the
  rows of each column.
\<close>

theorem multiple_of_batch_size_run:
  "get_batches (PNNDataReader_init [] 2 None False 1234 1 0) [sample_row_group 0 4] None =
  ([Pull None,
    Yield None ([(''Label'', 0), (''Label'', 1)],
      \<lparr>shape = (4, 2),
       cells = [[(''I1'', 0), (''I2'', 0)], [(''I1'', 1), (''I2'', 1)],
                [(''I1'', 2), (''I2'', 2)], [(''I1'', 3), (''I2'', 3)]]\<rparr>),
    Yield None ([(''Label'', 2), (''Label'', 3)],
      \<lparr>shape = (4, 2),
       cells = [[(''I3'', 0), (''I4'', 0)], [(''I3'', 1), (''I4'', 1)],
                [(''I3'', 2), (''I4'', 2)], [(''I3'', 3), (''I4'', 3)]]\<rparr>),
    Pull None], Inr None)"
  by code_simp

text \<open>
  Claim C2 says that an iteration of the slicing loop emits the rows from \<^verbatim>\<open>pos\<close> to
  \<^verbatim>\<open>pos + batch_size\<close> of every column. With a batch size of 1 and a row group of 2
  rows, the loop yields a first batch whose features are the whole column I1 (shape
  \<open>(2, 1)\<close>), where the batch of the specification is row 0 of the 39 feature columns
  (shape \<open>(1, 39)\<close>); the label and the cursor are as the claim says.
\<close>

theorem slicing_loop_features_run:
  "project (sample_row_group 0 2) (fields_attr (PNNDataReader_init [] 1 None False 1234 1 0)) =
     Inr (sample_columns (PNNDataReader_init [] 1 None False 1234 1 0) 0 2)
   \<and> slicing_loop 1 None (sample_columns (PNNDataReader_init [] 1 None False 1234 1 0) 0 2) 0 =
     ([Yield None ([(''Label'', 0)], \<lparr>shape = (2, 1), cells = [[(''I1'', 0)], [(''I1'', 1)]]\<rparr>),
       Yield None ([(''Label'', 1)], \<lparr>shape = (2, 1), cells = [[(''I2'', 0)], [(''I2'', 1)]]\<rparr>)],
      Inr 2)
   \<and> spec_training_batch 1 (sample_columns (PNNDataReader_init [] 1 None False 1234 1 0) 0 2) 0 =
     Inr ([(''Label'', 0)],
          \<lparr>shape = (1, 39),
           cells = [map (\<lambda>f. (f, 0)) (tl (fields_attr (PNNDataReader_init [] 1 None False 1234 1 0)))]\<rparr>)"
  by code_simp

text \<open>
  Claim C3 says that row \<open>i\<close> of the label and row \<open>i\<close> of the features of a batch
  come from the same input row. In the second batch of the run below (batch size 1, one
  row group of 2 rows) row 0 of the label is the label of input row 1, and row 0 of the
  features is the cell of column I2 at input row 0.
\<close>

theorem second_batch_pairing_run:
  "batches (fst (get_batches (PNNDataReader_init [] 1 None False 1234 1 0) [sample_row_group 0 2] None)) ! 1 =
     ([(''Label'', 1)], \<lparr>shape = (2, 1), cells = [[(''I2'', 0)], [(''I2'', 1)]]\<rparr>)"
  by code_simp

text \<open>
  Claim C7 says that a single row group of exactly \<^verbatim>\<open>batch_size\<close> rows gives one batch
  with features of shape \<^verbatim>\<open>[batch_size, num_feature_columns]\<close> and no tail. With a
  batch size of 1 and a row group of 1 row there is one batch and no tail, but the
  features have the shape \<open>(1, 1)\<close>: of the 39 feature columns only I1 is there.
\<close>

theorem single_full_row_group_run:
  "rows (PNNDataReader_init [] 1 None False 1234 1 0) (sample_row_group 0 1) = 1
  \<and> get_batches (PNNDataReader_init [] 1 None False 1234 1 0) [sample_row_group 0 1] None =
     ([Pull None,
       Yield None ([(''Label'', 0)], \<lparr>shape = (1, 1), cells = [[(''I1'', 0)]]\<rparr>),
       Pull None], Inr None)"
  by code_simp

end
